theory Spec2Isabelle
  imports Complex_Main "HOL-Library.AList" "HOL-Library.Char_ord" "HOL-Library.List_Lexorder"
    "HOL-Library.Sublist"
begin

section \<open>Python values shared by both notebooks\<close>

text \<open>
  Exceptions are values. \<open>IndexError\<close>, \<open>KeyError\<close>, \<open>ValueError\<close> and
  \<open>StopIteration\<close> are the built-in exceptions that the modelled statements can raise
  (\<open>list.pop\<close>, \<open>del d[k]\<close>, \<open>list.remove\<close> and the explicit \<open>raise\<close>, \<open>next\<close>);
  \<open>CollaboratorError\<close> stands for whatever an external library call raises.
\<close>

datatype py_error = IndexError | KeyError | ValueError | StopIteration | CollaboratorError string

text \<open>\<open>xs.remove(x)\<close>: drops the first occurrence, raises \<open>ValueError\<close> when there is none.\<close>

definition list_remove :: "'a \<Rightarrow> 'a list \<Rightarrow> py_error + 'a list" where
  "list_remove x xs = (if x \<in> set xs then Inr (remove1 x xs) else Inl ValueError)"

text \<open>\<open>xs.pop(0)\<close>: the head and the rest, \<open>IndexError\<close> on the empty list.\<close>

definition list_pop0 :: "'a list \<Rightarrow> py_error + ('a \<times> 'a list)" where
  "list_pop0 xs = (case xs of [] \<Rightarrow> Inl IndexError | x # rest \<Rightarrow> Inr (x, rest))"

text \<open>
  A \<open>dict\<close> is an association list in insertion order with distinct keys:
  \<open>d[k] = v\<close> is \<^const>\<open>AList.update\<close> (in place for a present key, at the end for a new
  one), \<open>k in d\<close> is \<open>map_of d k \<noteq> None\<close>, \<open>len(d)\<close> is \<^const>\<open>length\<close>.
  \<open>del d[k]\<close> raises \<open>KeyError\<close> for an absent key.
\<close>

definition dict_del :: "'k \<Rightarrow> ('k \<times> 'v) list \<Rightarrow> py_error + ('k \<times> 'v) list" where
  "dict_del k d = (case map_of d k of None \<Rightarrow> Inl KeyError | Some _ \<Rightarrow> Inr (AList.delete k d))"

section \<open>The LRU cache of chapter 5 (class \<open>LRUCache\<close>)\<close>

record ('k, 'v) lru_cache =
  capacity :: int
  cache :: "('k \<times> 'v) list"
  usage_order :: "'k list"

definition LRUCache_init :: "int \<Rightarrow> ('k, 'v) lru_cache" where
  "LRUCache_init cap = \<lparr>capacity = cap, cache = [], usage_order = []\<rparr>"

text \<open>
  \<open>get\<close> returns the updated object and the value, \<open>None\<close> on a miss. An exception
  aborts the call.
\<close>

definition LRUCache_get ::
  "('k, 'v) lru_cache \<Rightarrow> 'k \<Rightarrow> py_error + (('k, 'v) lru_cache \<times> 'v option)" where
  "LRUCache_get c key =
     (case map_of (cache c) key of
        Some v \<Rightarrow>
          (case list_remove key (usage_order c) of
             Inl e \<Rightarrow> Inl e
           | Inr order \<Rightarrow> Inr (c\<lparr>usage_order := order @ [key]\<rparr>, Some v))
      | None \<Rightarrow> Inr (c, None))"

definition LRUCache_put ::
  "('k, 'v) lru_cache \<Rightarrow> 'k \<Rightarrow> 'v \<Rightarrow> py_error + ('k, 'v) lru_cache" where
  "LRUCache_put c key val =
     (case map_of (cache c) key of
        Some _ \<Rightarrow>
          (case list_remove key (usage_order c) of
             Inl e \<Rightarrow> Inl e
           | Inr order \<Rightarrow>
               Inr (c\<lparr>cache := AList.update key val (cache c), usage_order := order @ [key]\<rparr>))
      | None \<Rightarrow>
          (if capacity c \<le> int (length (cache c)) then
             (case list_pop0 (usage_order c) of
                Inl e \<Rightarrow> Inl e
              | Inr (lru_key, order) \<Rightarrow>
                  (case dict_del lru_key (cache c) of
                     Inl e \<Rightarrow> Inl e
                   | Inr d \<Rightarrow>
                       Inr (c\<lparr>cache := AList.update key val d, usage_order := order @ [key]\<rparr>)))
           else
             Inr (c\<lparr>cache := AList.update key val (cache c),
                    usage_order := usage_order c @ [key]\<rparr>)))"

definition LRUCache_clear :: "('k, 'v) lru_cache \<Rightarrow> ('k, 'v) lru_cache" where
  "LRUCache_clear c = c\<lparr>cache := [], usage_order := []\<rparr>"

definition LRUCache_len :: "('k, 'v) lru_cache \<Rightarrow> nat" where
  "LRUCache_len c = length (cache c)"

text \<open>A sequence of calls on one cache object; the first exception ends it.\<close>

datatype ('k, 'v) cache_op = Get 'k | Put 'k 'v | Clear

fun apply_op :: "('k, 'v) lru_cache \<Rightarrow> ('k, 'v) cache_op \<Rightarrow> py_error + ('k, 'v) lru_cache" where
  "apply_op c (Get k) = (case LRUCache_get c k of Inl e \<Rightarrow> Inl e | Inr (c', _) \<Rightarrow> Inr c')"
| "apply_op c (Put k v) = LRUCache_put c k v"
| "apply_op c Clear = Inr (LRUCache_clear c)"

fun run_ops :: "('k, 'v) cache_op list \<Rightarrow> ('k, 'v) lru_cache \<Rightarrow> py_error + ('k, 'v) lru_cache" where
  "run_ops [] c = Inr c"
| "run_ops (x # xs) c = (case apply_op c x of Inl e \<Rightarrow> Inl e | Inr c' \<Rightarrow> run_ops xs c')"

definition cache_keys :: "('k, 'v) lru_cache \<Rightarrow> 'k set" where
  "cache_keys c = fst ` set (cache c)"

text \<open>
  The invariant of the object: the dictionary has distinct keys, \<open>usage_order\<close> lists
  exactly these keys, each once, and the size is within the capacity.
\<close>

definition cache_inv :: "('k, 'v) lru_cache \<Rightarrow> bool" where
  "cache_inv c \<longleftrightarrow>
     distinct (map fst (cache c)) \<and>
     distinct (usage_order c) \<and>
     set (usage_order c) = cache_keys c \<and>
     length (usage_order c) = LRUCache_len c \<and>
     int (LRUCache_len c) \<le> capacity c"

section \<open>The cached query of chapter 5 (function \<open>cached_query\<close>)\<close>

text \<open>
  \<open>f"{n_results}"\<close> for an \<open>int\<close>: the decimal digits, most significant first, with a
  leading minus sign for a negative number.
\<close>

definition digit_char :: "nat \<Rightarrow> char" where
  "digit_char d = ''0123456789'' ! d"

fun str_nat :: "nat \<Rightarrow> string" where
  "str_nat n = (if n < 10 then [digit_char n] else str_nat (n div 10) @ [digit_char (n mod 10)])"

declare str_nat.simps [simp del]

definition str_int :: "int \<Rightarrow> string" where
  "str_int i = (if i < 0 then CHR ''-'' # str_nat (nat (- i)) else str_nat (nat i))"

text \<open>The key built in the first statement of \<open>cached_query\<close>: \<open>f"{query_text}:{n_results}"\<close>.\<close>

definition cache_key :: "string \<Rightarrow> int \<Rightarrow> string" where
  "cache_key query_text n_results = query_text @ '':'' @ str_int n_results"

text \<open>
  \<open>cached_query\<close> reads and writes the global \<open>query_cache\<close>, passed in and returned here.
  \<open>collection.query\<close> is the external vector store; its result is never \<open>None\<close>, so a
  value found in the cache is a hit. The function returns the result and the hit flag.
\<close>

definition cached_query ::
  "(string \<Rightarrow> int \<Rightarrow> py_error + 'r) \<Rightarrow> (string, 'r) lru_cache \<Rightarrow> string \<Rightarrow> int \<Rightarrow> bool
     \<Rightarrow> py_error + ((string, 'r) lru_cache \<times> 'r \<times> bool)" where
  "cached_query collection_query query_cache query_text n_results use_cache =
     (case (if use_cache then LRUCache_get query_cache (cache_key query_text n_results)
            else Inr (query_cache, None)) of
        Inl e \<Rightarrow> Inl e
      | Inr (c1, Some cached_result) \<Rightarrow> Inr (c1, cached_result, True)
      | Inr (c1, None) \<Rightarrow>
          (case collection_query query_text n_results of
             Inl e \<Rightarrow> Inl e
           | Inr result \<Rightarrow>
               (if use_cache then
                  (case LRUCache_put c1 (cache_key query_text n_results) result of
                     Inl e \<Rightarrow> Inl e
                   | Inr c2 \<Rightarrow> Inr (c2, result, False))
                else Inr (c1, result, False))))"



section \<open>The retrieval pipeline (classes \<open>WeightedFusionRetriever\<close>, \<open>RerankedRetriever\<close>, \<open>RetrievalPipeline\<close>)\<close>

text \<open>
  A \<open>TextNode\<close> with its id and content, and a \<open>NodeWithScore\<close>. Scores are Python
  floats; they are modelled as real numbers, that is without rounding and without NaN, so
  that comparison is the usual total order.
\<close>

record text_node =
  node_id :: string
  get_content :: string

record node_with_score =
  node :: text_node
  score :: real

text \<open>
  \<open>sorted(xs, key=key, reverse=True)\<close> and \<open>xs.sort(key=key, reverse=True)\<close>: CPython
  reverses the list, sorts it stably in ascending order and reverses the result, so that
  elements with equal keys keep their order.
\<close>

definition py_sorted_desc :: "('a \<Rightarrow> real) \<Rightarrow> 'a list \<Rightarrow> 'a list" where
  "py_sorted_desc key xs = rev (sort_key key (rev xs))"

text \<open>The slice \<open>xs[:k]\<close>: a negative \<open>k\<close> counts from the end.\<close>

definition py_take :: "int \<Rightarrow> 'a list \<Rightarrow> 'a list" where
  "py_take k xs = (if k < 0 then take (length xs - nat (- k)) xs else take (nat k) xs)"

text \<open>
  Calls of the external collaborators are recorded: a retriever call with the name of the
  retriever and the query, a call of the cross-encoder's \<open>predict\<close> with its batch of
  (query, text) pairs. A method returns the calls it made and its result or exception.
\<close>

datatype event = RetrieverCalled string string | RerankerCalled "(string \<times> string) list"

type_synonym 'a action = "event list \<times> (py_error + 'a)"

text \<open>A retriever object is its \<open>retrieve\<close> method.\<close>

type_synonym retriever = "string \<Rightarrow> node_with_score list action"

definition external_retriever ::
  "string \<Rightarrow> (string \<Rightarrow> py_error + node_with_score list) \<Rightarrow> retriever" where
  "external_retriever name search query_str = ([RetrieverCalled name query_str], search query_str)"

text \<open>
  \<open>BaseRetriever.retrieve\<close>, which the two retriever classes of the notebook inherit:
  it calls the \<open>_retrieve\<close> of the subclass and passes the nodes found through the
  post-processing of the library (\<open>_handle_recursive_retrieval\<close>), a parameter here.
  An exception of \<open>_retrieve\<close> is raised again. The definitions
  \<open>WeightedFusionRetriever_retrieve\<close> and \<open>RerankedRetriever_retrieve\<close> below are the
  \<open>_retrieve\<close> methods.
\<close>

definition BaseRetriever_retrieve ::
  "(node_with_score list \<Rightarrow> node_with_score list) \<Rightarrow> retriever \<Rightarrow> retriever" where
  "BaseRetriever_retrieve handle_recursive_retrieval retrieve_impl query_str =
     (case retrieve_impl query_str of
        (ev, Inl e) \<Rightarrow> (ev, Inl e)
      | (ev, Inr nodes) \<Rightarrow> (ev, Inr (handle_recursive_retrieval nodes)))"

subsection \<open>\<open>WeightedFusionRetriever._retrieve\<close>\<close>

text \<open>
  \<open>all_results\<close> maps a node id to \<open>{"node": ..., "scores": {...}}\<close>; both dictionaries
  are kept in insertion order. \<open>add_result\<close> is the body of the inner loop.
\<close>

type_synonym fusion_entry = "text_node \<times> (string \<times> real) list"

definition weights_get :: "(string \<times> real) list \<Rightarrow> string \<Rightarrow> real" where
  "weights_get weights name = (case map_of weights name of Some w \<Rightarrow> w | None \<Rightarrow> 1)"

definition add_result ::
  "string \<Rightarrow> real \<Rightarrow> node_with_score \<Rightarrow> (string \<times> fusion_entry) list
     \<Rightarrow> (string \<times> fusion_entry) list" where
  "add_result name weight n all_results =
     (let nid = node_id (node n);
          weighted_score = score n * weight;
          all_results' = (if map_of all_results nid = None
                          then AList.update nid (node n, []) all_results
                          else all_results)
      in AList.map_entry nid
           (\<lambda>(nd, scores). (nd, AList.update name weighted_score scores)) all_results')"

fun fusion_loop ::
  "(string \<times> retriever) list \<Rightarrow> (string \<times> real) list \<Rightarrow> string
     \<Rightarrow> (string \<times> fusion_entry) list \<Rightarrow> (string \<times> fusion_entry) list action" where
  "fusion_loop [] weights query_str all_results = ([], Inr all_results)"
| "fusion_loop ((name, retriever) # rest) weights query_str all_results =
     (case retriever query_str of
        (ev, Inl e) \<Rightarrow> (ev, Inl e)
      | (ev, Inr results) \<Rightarrow>
          (case fusion_loop rest weights query_str
                  (fold (add_result name (weights_get weights name)) results all_results) of
             (ev', r) \<Rightarrow> (ev @ ev', r)))"

definition final_results :: "(string \<times> fusion_entry) list \<Rightarrow> node_with_score list" where
  "final_results all_results =
     map (\<lambda>(nid, nd, scores). \<lparr>node = nd, score = sum_list (map snd scores)\<rparr>) all_results"

definition WeightedFusionRetriever_retrieve ::
  "(string \<times> retriever) list \<Rightarrow> (string \<times> real) list \<Rightarrow> retriever" where
  "WeightedFusionRetriever_retrieve retrievers weights query_str =
     (case fusion_loop retrievers weights query_str [] of
        (ev, Inl e) \<Rightarrow> (ev, Inl e)
      | (ev, Inr all_results) \<Rightarrow> (ev, Inr (py_sorted_desc score (final_results all_results))))"






subsection \<open>\<open>RerankedRetriever._retrieve\<close>\<close>

definition RerankedRetriever_retrieve ::
  "retriever \<Rightarrow> ((string \<times> string) list \<Rightarrow> py_error + real list) \<Rightarrow> int \<Rightarrow> int \<Rightarrow> retriever" where
  "RerankedRetriever_retrieve base_retriever reranker fetch_k top_k query_str =
     (case base_retriever query_str of
        (ev, Inl e) \<Rightarrow> (ev, Inl e)
      | (ev, Inr results) \<Rightarrow>
          (let base_nodes = py_take fetch_k results in
           if base_nodes = [] then (ev, Inr [])
           else
             (let node_texts = map (\<lambda>n. get_content (node n)) base_nodes;
                  pairs = map (\<lambda>t. (query_str, t)) node_texts
              in case reranker pairs of
                   Inl e \<Rightarrow> (ev @ [RerankerCalled pairs], Inl e)
                 | Inr rerank_scores \<Rightarrow>
                     (let reranked_nodes =
                            map (\<lambda>(n, s). \<lparr>node = node n, score = s\<rparr>)
                              (zip base_nodes rerank_scores);
                          sorted_nodes = py_sorted_desc score reranked_nodes
                      in (ev @ [RerankerCalled pairs],
                          Inr (if top_k \<noteq> 0 then py_take top_k sorted_nodes
                               else sorted_nodes))))))"

subsection \<open>\<open>RetrievalPipeline\<close>\<close>

record pipeline_config =
  use_bm25 :: bool
  use_vector :: bool
  use_hybrid :: bool
  use_reranking :: bool
  vector_weight :: real
  bm25_weight :: real
  top_k :: int
  rerank_top_k :: int

text \<open>
  The library objects that \<open>build\<close> creates, each by a constructor call inside
  \<open>build\<close> that can raise: the BM25 index over the nodes, which ranks the whole corpus
  for a query; \<open>VectorStoreIndex(nodes, embed_model).as_retriever(similarity_top_k)\<close>
  with its \<open>HuggingFaceEmbedding\<close>; the \<open>CrossEncoder\<close> with its \<open>predict\<close> method.
  Each search or prediction returns its result or raises. The last field is the
  post-processing of \<open>BaseRetriever.retrieve\<close>.
\<close>

record collaborators =
  bm25_index :: "text_node list \<Rightarrow> py_error + (string \<Rightarrow> py_error + node_with_score list)"
  vector_as_retriever ::
    "text_node list \<Rightarrow> int \<Rightarrow> py_error + (string \<Rightarrow> py_error + node_with_score list)"
  cross_encoder :: "py_error + ((string \<times> string) list \<Rightarrow> py_error + real list)"
  handle_recursive_retrieval :: "node_with_score list \<Rightarrow> node_with_score list"

text \<open>
  Modelled from the spec: the BM25 retriever is a library class whose code is not among
  the sources. By section 4.1 its \<open>score(query, top_k)\<close> returns the ranked sequence of
  candidates limited to \<open>top_k\<close>, fewer when the corpus is smaller: the first
  \<open>similarity_top_k\<close> entries of the ranking of the corpus.
\<close>

definition BM25Retriever_retrieve ::
  "(string \<Rightarrow> py_error + node_with_score list) \<Rightarrow> int \<Rightarrow> string
     \<Rightarrow> py_error + node_with_score list" where
  "BM25Retriever_retrieve ranking similarity_top_k query_str =
     (case ranking query_str of
        Inl e \<Rightarrow> Inl e
      | Inr ranked \<Rightarrow> Inr (take (nat similarity_top_k) ranked))"

text \<open>
  Modelled from the spec: \<open>BM25Retriever.from_defaults(nodes, similarity_top_k)\<close>. By
  sections 4.1 and 7 building the index fails with \<open>EmptyCorpusError\<close> on an empty
  corpus, with no partial index (the library has its own exception type for it; the name
  here is the one of the specification); on another corpus the library builds the index
  or raises.
\<close>

definition BM25Retriever_from_defaults ::
  "collaborators \<Rightarrow> text_node list \<Rightarrow> int
     \<Rightarrow> py_error + (string \<Rightarrow> py_error + node_with_score list)" where
  "BM25Retriever_from_defaults ext nodes similarity_top_k =
     (if nodes = [] then Inl (CollaboratorError ''EmptyCorpusError'')
      else
        (case bm25_index ext nodes of
           Inl e \<Rightarrow> Inl e
         | Inr ranking \<Rightarrow> Inr (BM25Retriever_retrieve ranking similarity_top_k)))"

record retrieval_pipeline =
  config :: pipeline_config
  pipeline :: "retriever option"

definition RetrievalPipeline_init :: "pipeline_config \<Rightarrow> retrieval_pipeline" where
  "RetrievalPipeline_init cfg = \<lparr>config = cfg, pipeline = None\<rparr>"

text \<open>
  \<open>Set up retrievers\<close>: the dictionary \<open>retrievers\<close> that \<open>build\<close> fills, in
  insertion order. A constructor that raises ends \<open>build\<close>.
\<close>

definition build_retrievers ::
  "collaborators \<Rightarrow> pipeline_config \<Rightarrow> text_node list
     \<Rightarrow> py_error + (string \<times> retriever) list" where
  "build_retrievers ext cfg nodes =
     (case (if use_bm25 cfg then
              (case BM25Retriever_from_defaults ext nodes (top_k cfg) of
                 Inl e \<Rightarrow> Inl e
               | Inr search \<Rightarrow> Inr (AList.update ''bm25'' (external_retriever ''bm25'' search) []))
            else Inr []) of
        Inl e \<Rightarrow> Inl e
      | Inr retrievers \<Rightarrow>
          (if use_vector cfg then
             (case vector_as_retriever ext nodes (top_k cfg) of
                Inl e \<Rightarrow> Inl e
              | Inr search \<Rightarrow>
                  Inr (AList.update ''vector'' (external_retriever ''vector'' search) retrievers))
           else Inr retrievers))"

text \<open>
  \<open>Select base retriever\<close>: the fusion retriever for more than one retriever with
  \<open>use_hybrid\<close>, otherwise the first retriever of the dictionary;
  \<open>next(iter(retrievers.keys()))\<close> raises \<open>StopIteration\<close> on an empty dictionary.
\<close>

definition select_base_retriever ::
  "collaborators \<Rightarrow> pipeline_config \<Rightarrow> (string \<times> retriever) list \<Rightarrow> py_error + retriever" where
  "select_base_retriever ext cfg retrievers =
     (if use_hybrid cfg \<and> 1 < length retrievers then
        Inr (BaseRetriever_retrieve (handle_recursive_retrieval ext)
               (WeightedFusionRetriever_retrieve retrievers
                  [(''vector'', vector_weight cfg), (''bm25'', bm25_weight cfg)]))
      else
        (case retrievers of
           [] \<Rightarrow> Inl StopIteration
         | (retriever_name, retriever) # _ \<Rightarrow> Inr retriever))"

text \<open>
  \<open>build\<close> assigns \<open>self.pipeline\<close> in its last statement: when a constructor or the
  selection raises, the object is left as it was. \<open>Add reranking if enabled\<close>
  constructs the \<open>CrossEncoder\<close> inside \<open>RerankedRetriever.__init__\<close>.
\<close>

definition build ::
  "collaborators \<Rightarrow> retrieval_pipeline \<Rightarrow> text_node list \<Rightarrow> py_error + retrieval_pipeline" where
  "build ext self nodes =
     (case build_retrievers ext (config self) nodes of
        Inl e \<Rightarrow> Inl e
      | Inr retrievers \<Rightarrow>
          (case select_base_retriever ext (config self) retrievers of
             Inl e \<Rightarrow> Inl e
           | Inr base_retriever \<Rightarrow>
               (if use_reranking (config self) then
                  (case cross_encoder ext of
                     Inl e \<Rightarrow> Inl e
                   | Inr reranker \<Rightarrow>
                       Inr (self\<lparr>pipeline := Some
                         (BaseRetriever_retrieve (handle_recursive_retrieval ext)
                            (RerankedRetriever_retrieve base_retriever reranker
                               (rerank_top_k (config self)) (top_k (config self))))\<rparr>))
                else Inr (self\<lparr>pipeline := Some base_retriever\<rparr>))))"

text \<open>
  \<open>retrieve\<close> returns the results and the elapsed wall-clock time; only the results are
  modelled. The object is not changed by the call.
\<close>

definition RetrievalPipeline_retrieve ::
  "retrieval_pipeline \<Rightarrow> string \<Rightarrow> node_with_score list action" where
  "RetrievalPipeline_retrieve self query_str =
     (case pipeline self of
        None \<Rightarrow> ([], Inl ValueError)
      | Some p \<Rightarrow> p query_str)"

text \<open>A retriever whose every call starts with a call of an external retriever on the query.\<close>

definition calls_retriever_first :: "retriever \<Rightarrow> bool" where
  "calls_retriever_first r \<longleftrightarrow>
     (\<forall>q. \<exists>name rest. fst (r q) = RetrieverCalled name q # rest)"

section \<open>Example data\<close>

text \<open>
  Concrete inputs for the examples below. The stub BM25 index ranks the nodes in corpus
  order with score 1; the stub embedding model and cross-encoder cannot be loaded, so that
  their constructors raise; \<open>text_length_model\<close> scores a pair by the length of its text
  and \<open>unavailable_model\<close> raises.
\<close>

abbreviation ranked_candidates :: "node_with_score list" where
  "ranked_candidates \<equiv>
     [\<lparr>node = \<lparr>node_id = ''d1'', get_content = ''aa''\<rparr>, score = 3\<rparr>,
      \<lparr>node = \<lparr>node_id = ''d2'', get_content = ''bbbb''\<rparr>, score = 2\<rparr>,
      \<lparr>node = \<lparr>node_id = ''d3'', get_content = ''c''\<rparr>, score = 1\<rparr>]"

abbreviation ranked_candidates_retriever :: retriever where
  "ranked_candidates_retriever \<equiv> external_retriever ''fused'' (\<lambda>q. Inr ranked_candidates)"

abbreviation text_length_model :: "(string \<times> string) list \<Rightarrow> py_error + real list" where
  "text_length_model \<equiv> (\<lambda>pairs. Inr (map (\<lambda>p. real (length (snd p))) pairs))"

abbreviation unavailable_model :: "(string \<times> string) list \<Rightarrow> py_error + real list" where
  "unavailable_model \<equiv> (\<lambda>pairs. Inl (CollaboratorError ''RerankerUnavailableError''))"




abbreviation stub_collaborators :: collaborators where
  "stub_collaborators \<equiv>
     \<lparr>bm25_index = (\<lambda>nodes. Inr (\<lambda>q. Inr (map (\<lambda>n. \<lparr>node = n, score = 1\<rparr>) nodes))),
      vector_as_retriever = (\<lambda>nodes k. Inl (CollaboratorError ''EmbeddingUnavailableError'')),
      cross_encoder = Inl (CollaboratorError ''RerankerUnavailableError''),
      handle_recursive_retrieval = (\<lambda>nodes. nodes)\<rparr>"

abbreviation three_nodes :: "text_node list" where
  "three_nodes \<equiv>
     [\<lparr>node_id = ''doc_0'', get_content = ''cat sat on mat''\<rparr>,
      \<lparr>node_id = ''doc_1'', get_content = ''dog ran in park''\<rparr>,
      \<lparr>node_id = ''doc_2'', get_content = ''cat and dog play''\<rparr>]"

abbreviation bm25_only_config :: pipeline_config where
  "bm25_only_config \<equiv>
     \<lparr>use_bm25 = True, use_vector = False, use_hybrid = False, use_reranking = False,
      vector_weight = 7 / 10, bm25_weight = 3 / 10, top_k = 2, rerank_top_k = 10\<rparr>"

abbreviation no_retriever_config :: pipeline_config where
  "no_retriever_config \<equiv>
     \<lparr>use_bm25 = False, use_vector = False, use_hybrid = True, use_reranking = True,
      vector_weight = 7 / 10, bm25_weight = 3 / 10, top_k = 5, rerank_top_k = 10\<rparr>"

abbreviation default_config :: pipeline_config where
  "default_config \<equiv>
     \<lparr>use_bm25 = True, use_vector = True, use_hybrid = True, use_reranking = True,
      vector_weight = 7 / 10, bm25_weight = 3 / 10, top_k = 5, rerank_top_k = 10\<rparr>"


abbreviation three_nodes_ranking :: "string \<Rightarrow> py_error + node_with_score list" where
  "three_nodes_ranking \<equiv> (\<lambda>q. Inr (map (\<lambda>n. \<lparr>node = n, score = 1\<rparr>) three_nodes))"

abbreviation bm25_only_pipeline :: retrieval_pipeline where
  "bm25_only_pipeline \<equiv>
     \<lparr>config = bm25_only_config,
      pipeline = Some (external_retriever ''bm25''
        (BM25Retriever_retrieve three_nodes_ranking (top_k bm25_only_config)))\<rparr>"

abbreviation two_entries :: "(string \<times> nat) list" where
  "two_entries \<equiv> [(''a'', 1), (''b'', 2)]"

section \<open>Properties of the LRU cache\<close>

lemma map_of_None_keys: "map_of d k = None \<longleftrightarrow> k \<notin> fst ` set d"
  by (simp add: map_of_eq_None_iff)

lemma keys_update: "fst ` set (AList.update k v d) = insert k (fst ` set d)"
  by (induction d) auto

lemma keys_delete: "fst ` set (AList.delete k d) = fst ` set d - {k}"
  by (auto simp: AList.delete_eq)

lemma length_update_new: "map_of d k = None \<Longrightarrow> length (AList.update k v d) = Suc (length d)"
  by (induction d) (auto split: if_splits)

lemma length_update_old: "map_of d k = Some w \<Longrightarrow> length (AList.update k v d) = length d"
  by (induction d) (auto split: if_splits)

lemma length_delete_old:
  "distinct (map fst d) \<Longrightarrow> map_of d k = Some w \<Longrightarrow> Suc (length (AList.delete k d)) = length d"
proof (induction d)
  case Nil
  then show ?case by simp
next
  case (Cons p d)
  obtain a b where p: "p = (a, b)" by (cases p)
  show ?case
  proof (cases "a = k")
    case True
    with Cons.prems p have "k \<notin> fst ` set d" by auto
    then have "AList.delete k d = d" by (rule AList.delete_id)
    with True p show ?thesis by simp
  next
    case False
    with Cons p show ?thesis by simp
  qed
qed

lemma LRUCache_init_inv: "0 \<le> cap \<Longrightarrow> cache_inv (LRUCache_init cap)"
  by (simp add: cache_inv_def LRUCache_init_def cache_keys_def LRUCache_len_def)

lemma LRUCache_clear_inv: "0 \<le> capacity c \<Longrightarrow> cache_inv (LRUCache_clear c)"
  by (simp add: cache_inv_def LRUCache_clear_def cache_keys_def LRUCache_len_def)

lemma LRUCache_get_inv:
  assumes "cache_inv c"
  shows "\<exists>c' r. LRUCache_get c k = Inr (c', r) \<and> cache_inv c' \<and> capacity c' = capacity c
           \<and> cache c' = cache c \<and> r = map_of (cache c) k"
proof (cases "map_of (cache c) k")
  case None
  with assms show ?thesis by (simp add: LRUCache_get_def)
next
  case (Some v)
  then have "k \<in> fst ` set (cache c)"
    using map_of_None_keys [of "cache c" k] by simp
  with assms have mem: "k \<in> set (usage_order c)"
    by (simp add: cache_inv_def cache_keys_def)
  have get: "LRUCache_get c k = Inr (c\<lparr>usage_order := remove1 k (usage_order c) @ [k]\<rparr>, Some v)"
    using Some mem by (simp add: LRUCache_get_def list_remove_def)
  have "distinct (remove1 k (usage_order c) @ [k])"
    using assms by (simp add: cache_inv_def)
  moreover have "set (remove1 k (usage_order c) @ [k]) = set (usage_order c)"
    using assms mem by (auto simp: cache_inv_def)
  moreover have "length (remove1 k (usage_order c) @ [k]) = length (usage_order c)"
    using mem length_pos_if_in_set [of k "usage_order c"] by (simp add: length_remove1)
  ultimately have "cache_inv (c\<lparr>usage_order := remove1 k (usage_order c) @ [k]\<rparr>)"
    using assms by (simp add: cache_inv_def cache_keys_def LRUCache_len_def)
  with get Some show ?thesis by simp
qed

lemma LRUCache_put_hit:
  assumes "cache_inv c" and "map_of (cache c) k = Some w"
  shows "LRUCache_put c k v =
           Inr (c\<lparr>cache := AList.update k v (cache c),
                  usage_order := remove1 k (usage_order c) @ [k]\<rparr>)"
    and "cache_inv (c\<lparr>cache := AList.update k v (cache c),
                  usage_order := remove1 k (usage_order c) @ [k]\<rparr>)"
proof -
  have key: "k \<in> fst ` set (cache c)"
    using map_of_None_keys [of "cache c" k] assms(2) by simp
  with assms(1) have mem: "k \<in> set (usage_order c)"
    by (simp add: cache_inv_def cache_keys_def)
  show "LRUCache_put c k v =
           Inr (c\<lparr>cache := AList.update k v (cache c),
                  usage_order := remove1 k (usage_order c) @ [k]\<rparr>)"
    using assms(2) mem by (simp add: LRUCache_put_def list_remove_def)
  have d: "distinct (map fst (AList.update k v (cache c)))"
    using assms(1) by (simp add: cache_inv_def AList.distinct_update)
  have ks: "fst ` set (AList.update k v (cache c)) = fst ` set (cache c)"
    using key by (auto simp: keys_update)
  have len: "length (AList.update k v (cache c)) = length (cache c)"
    using assms(2) by (rule length_update_old)
  have "distinct (remove1 k (usage_order c) @ [k])"
    using assms(1) by (simp add: cache_inv_def)
  moreover have "set (remove1 k (usage_order c) @ [k]) = set (usage_order c)"
    using assms(1) mem by (auto simp: cache_inv_def)
  moreover have "length (remove1 k (usage_order c) @ [k]) = length (usage_order c)"
    using mem length_pos_if_in_set [of k "usage_order c"] by (simp add: length_remove1)
  ultimately show "cache_inv (c\<lparr>cache := AList.update k v (cache c),
                  usage_order := remove1 k (usage_order c) @ [k]\<rparr>)"
    using assms(1) d ks len by (simp add: cache_inv_def cache_keys_def LRUCache_len_def)
qed

lemma LRUCache_put_room:
  assumes "cache_inv c" and "map_of (cache c) k = None" and "int (length (cache c)) < capacity c"
  shows "LRUCache_put c k v =
           Inr (c\<lparr>cache := AList.update k v (cache c), usage_order := usage_order c @ [k]\<rparr>)"
    and "cache_inv (c\<lparr>cache := AList.update k v (cache c),
                  usage_order := usage_order c @ [k]\<rparr>)"
proof -
  have key: "k \<notin> fst ` set (cache c)"
    using map_of_None_keys [of "cache c" k] assms(2) by simp
  show "LRUCache_put c k v =
           Inr (c\<lparr>cache := AList.update k v (cache c), usage_order := usage_order c @ [k]\<rparr>)"
    using assms(2,3) by (simp add: LRUCache_put_def)
  have d: "distinct (map fst (AList.update k v (cache c)))"
    using assms(1) by (simp add: cache_inv_def AList.distinct_update)
  have len: "length (AList.update k v (cache c)) = Suc (length (cache c))"
    using assms(2) by (rule length_update_new)
  show "cache_inv (c\<lparr>cache := AList.update k v (cache c),
                  usage_order := usage_order c @ [k]\<rparr>)"
    using assms(1,3) key d len
    by (simp add: cache_inv_def cache_keys_def LRUCache_len_def keys_update)
qed

lemma LRUCache_put_full:
  assumes "cache_inv c" and "map_of (cache c) k = None"
    and "capacity c \<le> int (length (cache c))" and "0 < capacity c"
  shows "usage_order c \<noteq> []"
    and "LRUCache_put c k v =
           Inr (c\<lparr>cache := AList.update k v (AList.delete (hd (usage_order c)) (cache c)),
                  usage_order := tl (usage_order c) @ [k]\<rparr>)"
    and "cache_inv (c\<lparr>cache := AList.update k v (AList.delete (hd (usage_order c)) (cache c)),
                  usage_order := tl (usage_order c) @ [k]\<rparr>)"
proof -
  have key: "k \<notin> fst ` set (cache c)"
    using map_of_None_keys [of "cache c" k] assms(2) by simp
  have lens: "length (usage_order c) = length (cache c)" "int (length (cache c)) = capacity c"
    using assms(1,3) by (simp_all add: cache_inv_def LRUCache_len_def)
  with assms(4) show ne: "usage_order c \<noteq> []" by auto
  then obtain x rest where uo: "usage_order c = x # rest" by (cases "usage_order c") auto
  have x: "x \<in> fst ` set (cache c)" "x \<notin> set rest" "distinct rest"
    and rest: "set rest = fst ` set (cache c) - {x}"
    using assms(1) uo by (auto simp: cache_inv_def cache_keys_def)
  from x(1) obtain w where w: "map_of (cache c) x = Some w"
    using map_of_None_keys [of "cache c" x] by auto
  show "LRUCache_put c k v =
           Inr (c\<lparr>cache := AList.update k v (AList.delete (hd (usage_order c)) (cache c)),
                  usage_order := tl (usage_order c) @ [k]\<rparr>)"
    using assms(2,3) uo w by (simp add: LRUCache_put_def list_pop0_def dict_del_def)
  have dc: "distinct (map fst (cache c))"
    using assms(1) by (simp add: cache_inv_def)
  have d: "distinct (map fst (AList.update k v (AList.delete x (cache c))))"
    using dc by (simp add: AList.distinct_update AList.distinct_delete)
  have knew: "map_of (AList.delete x (cache c)) k = None"
    using key map_of_None_keys [of "AList.delete x (cache c)" k] by (simp add: keys_delete)
  have len: "length (AList.update k v (AList.delete x (cache c))) = length (cache c)"
    using length_update_new [OF knew, of v] length_delete_old [OF dc w] by simp
  have ks: "fst ` set (AList.update k v (AList.delete x (cache c)))
              = insert k (fst ` set (cache c) - {x})"
    by (simp add: keys_update keys_delete)
  have "length (rest @ [k]) = length (cache c)"
    using lens(1) uo by simp
  moreover have "distinct (rest @ [k])"
    using x(3) rest key by auto
  moreover have "set (rest @ [k]) = insert k (fst ` set (cache c) - {x})"
    using rest by auto
  ultimately show "cache_inv (c\<lparr>cache := AList.update k v (AList.delete (hd (usage_order c)) (cache c)),
                  usage_order := tl (usage_order c) @ [k]\<rparr>)"
    using d len ks lens(2) uo by (simp add: cache_inv_def cache_keys_def LRUCache_len_def)
qed

lemma LRUCache_put_inv:
  assumes "cache_inv c" and "0 < capacity c"
  shows "\<exists>c'. LRUCache_put c k v = Inr c' \<and> cache_inv c' \<and> capacity c' = capacity c"
proof (cases "map_of (cache c) k")
  case (Some w)
  from LRUCache_put_hit [OF assms(1) Some, of v] show ?thesis by simp
next
  case None
  show ?thesis
  proof (cases "int (length (cache c)) < capacity c")
    case True
    from LRUCache_put_room [OF assms(1) None True, of v] show ?thesis by simp
  next
    case False
    then have "capacity c \<le> int (length (cache c))" by simp
    from LRUCache_put_full(2,3) [OF assms(1) None this assms(2), of v] show ?thesis by simp
  qed
qed

lemma apply_op_inv:
  assumes "cache_inv c" and "0 < capacity c"
  shows "\<exists>c'. apply_op c x = Inr c' \<and> cache_inv c' \<and> capacity c' = capacity c"
proof (cases x)
  case (Get k)
  from LRUCache_get_inv [OF assms(1), of k] show ?thesis using Get by auto
next
  case (Put k v)
  from LRUCache_put_inv [OF assms, of k v] show ?thesis using Put by simp
next
  case Clear
  from LRUCache_clear_inv [of c] assms(2) show ?thesis
    using Clear by (simp add: LRUCache_clear_def)
qed

lemma run_ops_inv:
  "cache_inv c \<Longrightarrow> 0 < capacity c \<Longrightarrow>
     \<exists>c'. run_ops xs c = Inr c' \<and> cache_inv c' \<and> capacity c' = capacity c"
proof (induction xs arbitrary: c)
  case Nil
  then show ?case by simp
next
  case (Cons x xs)
  from apply_op_inv [OF Cons.prems, of x] obtain c1
    where c1: "apply_op c x = Inr c1" "cache_inv c1" "capacity c1 = capacity c" by blast
  with Cons.prems(2) have "0 < capacity c1" by simp
  from Cons.IH [OF c1(2) this] c1 show ?case by simp
qed

text \<open>
  C9. From an empty cache of positive capacity, every sequence of \<open>get\<close>, \<open>put\<close> and
  \<open>clear\<close> calls runs without an exception and leaves a cache in which \<open>usage_order\<close>
  holds each key of the dictionary exactly once and no other key (so that its length is
  \<open>len(cache)\<close>), with \<open>len(cache)\<close> at most the capacity.
\<close>

theorem lru_cache_invariant:
  assumes "0 < cap"
  shows "\<exists>c. run_ops ops (LRUCache_init cap) = Inr c \<and>
           distinct (usage_order c) \<and>
           set (usage_order c) = cache_keys c \<and>
           distinct (map fst (cache c)) \<and>
           length (usage_order c) = LRUCache_len c \<and>
           int (LRUCache_len c) \<le> cap"
proof -
  have "cache_inv (LRUCache_init cap :: ('a, 'b) lru_cache)"
    using assms by (simp add: LRUCache_init_inv)
  moreover have "0 < capacity (LRUCache_init cap :: ('a, 'b) lru_cache)"
    using assms by (simp add: LRUCache_init_def)
  ultimately obtain c :: "('a, 'b) lru_cache"
    where "run_ops ops (LRUCache_init cap) = Inr c" "cache_inv c"
      "capacity c = capacity (LRUCache_init cap :: ('a, 'b) lru_cache)"
    using run_ops_inv [of "LRUCache_init cap" ops] by blast
  then show ?thesis
    by (auto simp: cache_inv_def LRUCache_init_def)
qed

theorem lru_cache_invariant_witness:
  "(0::int) < 2 \<and>
   (\<exists>c. run_ops [Put ''a'' (1::nat), Put ''b'' 2, Get ''a'', Put ''c'' 3, Clear, Put ''d'' 4]
          (LRUCache_init 2) = Inr c \<and>
        distinct (usage_order c) \<and> set (usage_order c) = cache_keys c \<and>
        distinct (map fst (cache c)) \<and> length (usage_order c) = LRUCache_len c \<and>
        int (LRUCache_len c) \<le> 2)"
  using lru_cache_invariant
    [of 2 "[Put ''a'' (1::nat), Put ''b'' 2, Get ''a'', Put ''c'' 3, Clear, Put ''d'' 4]"]
  by simp

lemma update_new_append: "k \<notin> fst ` set d \<Longrightarrow> AList.update k v d = d @ [(k, v)]"
  by (induction d) auto

lemma run_puts_room:
  "distinct (map fst (pre @ kvs)) \<Longrightarrow> int (length (pre @ kvs)) \<le> cap \<Longrightarrow>
   run_ops (map (\<lambda>(k, v). Put k v) kvs) \<lparr>capacity = cap, cache = pre, usage_order = map fst pre\<rparr>
     = Inr \<lparr>capacity = cap, cache = pre @ kvs, usage_order = map fst (pre @ kvs)\<rparr>"
proof (induction kvs arbitrary: pre)
  case Nil
  then show ?case by simp
next
  case (Cons p kvs)
  obtain k v where p: "p = (k, v)" by (cases p)
  from Cons.prems(1) p have new: "k \<notin> fst ` set pre" by auto
  then have none: "map_of pre k = None" by (simp add: map_of_None_keys)
  from Cons.prems(2) have room: "\<not> cap \<le> int (length pre)" by simp
  have step: "LRUCache_put \<lparr>capacity = cap, cache = pre, usage_order = map fst pre\<rparr> k v
          = Inr \<lparr>capacity = cap, cache = pre @ [(k, v)], usage_order = map fst (pre @ [(k, v)])\<rparr>"
    using none room new by (simp add: LRUCache_put_def update_new_append)
  have "run_ops (map (\<lambda>(k, v). Put k v) kvs)
          \<lparr>capacity = cap, cache = pre @ [(k, v)], usage_order = map fst (pre @ [(k, v)])\<rparr>
        = Inr \<lparr>capacity = cap, cache = (pre @ [(k, v)]) @ kvs,
               usage_order = map fst ((pre @ [(k, v)]) @ kvs)\<rparr>"
    using Cons.prems p by (intro Cons.IH) simp_all
  with step p show ?case by simp
qed

text \<open>
  C5 (amended). Take a cache of capacity \<open>N \<ge> 1\<close> filled by \<open>N\<close> puts of distinct
  keys; \<open>usage_order\<close> then lists the keys oldest first. A put of a further new key
  raises nothing and evicts exactly the key that was put first, the least recently used
  one, and no other key. When \<open>N \<ge> 2\<close>, a \<open>get\<close> of any cached key \<open>j\<close> before that put
  is a hit that moves \<open>j\<close> to the end of \<open>usage_order\<close>, the most recent position: the
  put then evicts the oldest of the other keys, \<open>j\<close> stays cached and is followed in
  \<open>usage_order\<close> by the new key only.
\<close>

theorem lru_evicts_least_recently_used:
  assumes "distinct (map fst kvs)" and "int (length kvs) = N" and "1 \<le> N"
    and "k \<notin> fst ` set kvs"
  shows "\<exists>c c'. run_ops (map (\<lambda>(k, v). Put k v) kvs) (LRUCache_init N) = Inr c \<and>
           cache_keys c = fst ` set kvs \<and>
           usage_order c = map fst kvs \<and>
           LRUCache_put c k v = Inr c' \<and>
           cache_keys c' = insert k (fst ` set kvs - {fst (hd kvs)}) \<and>
           usage_order c' = tl (map fst kvs) @ [k] \<and>
           (2 \<le> N \<longrightarrow> (\<forall>j \<in> fst ` set kvs. \<exists>c1 r c2.
               LRUCache_get c j = Inr (c1, r) \<and> r = map_of kvs j \<and>
               usage_order c1 = remove1 j (map fst kvs) @ [j] \<and>
               LRUCache_put c1 k v = Inr c2 \<and>
               j \<in> cache_keys c2 \<and>
               hd (remove1 j (map fst kvs)) \<noteq> j \<and>
               cache_keys c2 = insert k (fst ` set kvs - {hd (remove1 j (map fst kvs))}) \<and>
               usage_order c2 = tl (remove1 j (map fst kvs)) @ [j, k]))"
proof -
  define c :: "('a, 'b) lru_cache"
    where "c = \<lparr>capacity = N, cache = kvs, usage_order = map fst kvs\<rparr>"
  have run: "run_ops (map (\<lambda>(k, v). Put k v) kvs) (LRUCache_init N) = Inr c"
    using run_puts_room [of "[]" kvs N] assms(1,2) by (simp add: LRUCache_init_def c_def)
  have inv: "cache_inv c"
    using assms(1,2) by (simp add: c_def cache_inv_def cache_keys_def LRUCache_len_def distinct_map)
  have full: "capacity c \<le> int (length (cache c))" and pos: "0 < capacity c"
    using assms(2,3) by (simp_all add: c_def)
  have none: "map_of (cache c) k = None"
    using assms(4) by (simp add: c_def map_of_None_keys)
  have ne: "kvs \<noteq> []" using assms(2,3) by auto
  have keys: "cache_keys c = fst ` set kvs" by (simp add: c_def cache_keys_def)
  have order: "usage_order c = map fst kvs" by (simp add: c_def)
  define c' where "c' = c\<lparr>cache := AList.update k v (AList.delete (hd (usage_order c)) (cache c)),
                  usage_order := tl (usage_order c) @ [k]\<rparr>"
  have put: "LRUCache_put c k v = Inr c'"
    unfolding c'_def by (rule LRUCache_put_full(2) [OF inv none full pos])
  have keys': "cache_keys c' = insert k (fst ` set kvs - {fst (hd kvs)})"
    using ne by (simp add: c'_def c_def cache_keys_def keys_update keys_delete hd_map)
  have order': "usage_order c' = tl (map fst kvs) @ [k]"
    by (simp add: c'_def c_def)
  have promoted: "\<exists>c1 r c2.
               LRUCache_get c j = Inr (c1, r) \<and> r = map_of kvs j \<and>
               usage_order c1 = remove1 j (map fst kvs) @ [j] \<and>
               LRUCache_put c1 k v = Inr c2 \<and>
               j \<in> cache_keys c2 \<and>
               hd (remove1 j (map fst kvs)) \<noteq> j \<and>
               cache_keys c2 = insert k (fst ` set kvs - {hd (remove1 j (map fst kvs))}) \<and>
               usage_order c2 = tl (remove1 j (map fst kvs)) @ [j, k]"
    if two: "2 \<le> N" and j: "j \<in> fst ` set kvs" for j
  proof -
    from j obtain w where w: "map_of kvs j = Some w"
      using map_of_None_keys [of kvs j] by auto
    from j have jmem: "j \<in> set (map fst kvs)" by simp
    define c1 where "c1 = c\<lparr>usage_order := remove1 j (map fst kvs) @ [j]\<rparr>"
    have get: "LRUCache_get c j = Inr (c1, map_of kvs j)"
      using w jmem by (simp add: LRUCache_get_def list_remove_def c_def c1_def)
    have order1: "usage_order c1 = remove1 j (map fst kvs) @ [j]"
      by (simp add: c1_def)
    from LRUCache_get_inv [OF inv, of j] get have inv1: "cache_inv c1" by auto
    have len: "length (remove1 j (map fst kvs)) = length kvs - 1"
      using jmem by (simp add: length_remove1)
    with two assms(2) have rne: "remove1 j (map fst kvs) \<noteq> []" by auto
    then have hd1: "hd (usage_order c1) = hd (remove1 j (map fst kvs))"
      and tl1: "tl (usage_order c1) = tl (remove1 j (map fst kvs)) @ [j]"
      by (simp_all add: c1_def c_def)
    have "j \<notin> set (remove1 j (map fst kvs))"
      using assms(1) by simp
    with hd_in_set [OF rne] have neq: "hd (remove1 j (map fst kvs)) \<noteq> j"
      by auto
    have none1: "map_of (cache c1) k = None" using none by (simp add: c1_def)
    have full1: "capacity c1 \<le> int (length (cache c1))" and pos1: "0 < capacity c1"
      using full pos by (simp_all add: c1_def)
    define c2 where "c2 = c1\<lparr>cache := AList.update k v (AList.delete (hd (usage_order c1)) (cache c1)),
                  usage_order := tl (usage_order c1) @ [k]\<rparr>"
    have put2: "LRUCache_put c1 k v = Inr c2"
      unfolding c2_def by (rule LRUCache_put_full(2) [OF inv1 none1 full1 pos1])
    have keys2: "cache_keys c2 = insert k (fst ` set kvs - {hd (remove1 j (map fst kvs))})"
      by (simp add: c2_def cache_keys_def keys_update keys_delete hd1) (simp add: c1_def c_def)
    have order2: "usage_order c2 = tl (remove1 j (map fst kvs)) @ [j, k]"
      by (simp add: c2_def tl1)
    from keys2 j neq have "j \<in> cache_keys c2" by simp
    with get order1 put2 neq keys2 order2 show ?thesis by simp
  qed
  have last: "2 \<le> N \<longrightarrow> (\<forall>j \<in> fst ` set kvs. \<exists>c1 r c2.
               LRUCache_get c j = Inr (c1, r) \<and> r = map_of kvs j \<and>
               usage_order c1 = remove1 j (map fst kvs) @ [j] \<and>
               LRUCache_put c1 k v = Inr c2 \<and>
               j \<in> cache_keys c2 \<and>
               hd (remove1 j (map fst kvs)) \<noteq> j \<and>
               cache_keys c2 = insert k (fst ` set kvs - {hd (remove1 j (map fst kvs))}) \<and>
               usage_order c2 = tl (remove1 j (map fst kvs)) @ [j, k])"
  proof (intro impI ballI)
    fix j assume "2 \<le> N" "j \<in> fst ` set kvs"
    from promoted [OF this] show "\<exists>c1 r c2.
               LRUCache_get c j = Inr (c1, r) \<and> r = map_of kvs j \<and>
               usage_order c1 = remove1 j (map fst kvs) @ [j] \<and>
               LRUCache_put c1 k v = Inr c2 \<and>
               j \<in> cache_keys c2 \<and>
               hd (remove1 j (map fst kvs)) \<noteq> j \<and>
               cache_keys c2 = insert k (fst ` set kvs - {hd (remove1 j (map fst kvs))}) \<and>
               usage_order c2 = tl (remove1 j (map fst kvs)) @ [j, k]" .
  qed
  show ?thesis
    apply (rule exI [of _ c])
    apply (rule exI [of _ c'])
    apply (rule conjI [OF run])
    apply (rule conjI [OF keys])
    apply (rule conjI [OF order])
    apply (rule conjI [OF put])
    apply (rule conjI [OF keys'])
    apply (rule conjI [OF order'])
    apply (rule last)
    done
qed

text \<open>
  The witness reads \<open>a\<close>, the oldest of the two keys: without the promotion the put of
  \<open>c\<close> would evict \<open>a\<close>; with it \<open>b\<close> is evicted and \<open>a\<close> stays.
\<close>

theorem lru_evicts_least_recently_used_witness:
  "distinct (map fst two_entries) \<and>
   int (length two_entries) = 2 \<and> (1::int) \<le> 2 \<and>
   ''c'' \<notin> fst ` set two_entries \<and>
   (2::int) \<le> 2 \<and> ''a'' \<in> fst ` set two_entries \<and>
   (\<exists>c c'. run_ops (map (\<lambda>(k, v). Put k v) two_entries) (LRUCache_init 2) = Inr c \<and>
      cache_keys c = fst ` set two_entries \<and>
      usage_order c = map fst two_entries \<and>
      LRUCache_put c ''c'' 3 = Inr c' \<and>
      cache_keys c' = insert ''c'' (fst ` set two_entries - {fst (hd two_entries)}) \<and>
      usage_order c' = tl (map fst two_entries) @ [''c''] \<and>
      (\<exists>c1 r c2.
               LRUCache_get c ''a'' = Inr (c1, r) \<and> r = map_of two_entries ''a'' \<and>
               usage_order c1 = remove1 ''a'' (map fst two_entries) @ [''a''] \<and>
               LRUCache_put c1 ''c'' 3 = Inr c2 \<and>
               ''a'' \<in> cache_keys c2 \<and>
               hd (remove1 ''a'' (map fst two_entries)) \<noteq> ''a'' \<and>
               cache_keys c2 = insert ''c'' (fst ` set two_entries - {hd (remove1 ''a'' (map fst two_entries))}) \<and>
               usage_order c2 = tl (remove1 ''a'' (map fst two_entries)) @ [''a'', ''c'']))"
proof -
  have h1: "distinct (map fst two_entries)" by simp
  have h2: "int (length two_entries) = 2" by simp
  have h3: "(1::int) \<le> 2" by simp
  have h4: "''c'' \<notin> fst ` set two_entries" by simp
  have h5: "(2::int) \<le> 2" by simp
  have h6: "''a'' \<in> fst ` set two_entries" by simp
  from lru_evicts_least_recently_used [OF h1 h2 h3 h4, of 3] obtain c c'
    where run: "run_ops (map (\<lambda>(k, v). Put k v) two_entries) (LRUCache_init 2) = Inr c"
      and keys: "cache_keys c = fst ` set two_entries"
      and order: "usage_order c = map fst two_entries"
      and put: "LRUCache_put c ''c'' 3 = Inr c'"
      and keys': "cache_keys c' = insert ''c'' (fst ` set two_entries - {fst (hd two_entries)})"
      and order': "usage_order c' = tl (map fst two_entries) @ [''c'']"
      and promote: "(2::int) \<le> 2 \<longrightarrow> (\<forall>j \<in> fst ` set two_entries. \<exists>c1 r c2.
               LRUCache_get c j = Inr (c1, r) \<and> r = map_of two_entries j \<and>
               usage_order c1 = remove1 j (map fst two_entries) @ [j] \<and>
               LRUCache_put c1 ''c'' 3 = Inr c2 \<and>
               j \<in> cache_keys c2 \<and>
               hd (remove1 j (map fst two_entries)) \<noteq> j \<and>
               cache_keys c2 = insert ''c'' (fst ` set two_entries - {hd (remove1 j (map fst two_entries))}) \<and>
               usage_order c2 = tl (remove1 j (map fst two_entries)) @ [j, ''c''])"
    by (elim exE conjE)
  from promote [THEN mp, OF h5, THEN bspec, OF h6]
  have promoted: "\<exists>c1 r c2.
               LRUCache_get c ''a'' = Inr (c1, r) \<and> r = map_of two_entries ''a'' \<and>
               usage_order c1 = remove1 ''a'' (map fst two_entries) @ [''a''] \<and>
               LRUCache_put c1 ''c'' 3 = Inr c2 \<and>
               ''a'' \<in> cache_keys c2 \<and>
               hd (remove1 ''a'' (map fst two_entries)) \<noteq> ''a'' \<and>
               cache_keys c2 = insert ''c'' (fst ` set two_entries - {hd (remove1 ''a'' (map fst two_entries))}) \<and>
               usage_order c2 = tl (remove1 ''a'' (map fst two_entries)) @ [''a'', ''c'']" .
  have "\<exists>c c'. run_ops (map (\<lambda>(k, v). Put k v) two_entries) (LRUCache_init 2) = Inr c \<and>
      cache_keys c = fst ` set two_entries \<and>
      usage_order c = map fst two_entries \<and>
      LRUCache_put c ''c'' 3 = Inr c' \<and>
      cache_keys c' = insert ''c'' (fst ` set two_entries - {fst (hd two_entries)}) \<and>
      usage_order c' = tl (map fst two_entries) @ [''c''] \<and>
      (\<exists>c1 r c2.
               LRUCache_get c ''a'' = Inr (c1, r) \<and> r = map_of two_entries ''a'' \<and>
               usage_order c1 = remove1 ''a'' (map fst two_entries) @ [''a''] \<and>
               LRUCache_put c1 ''c'' 3 = Inr c2 \<and>
               ''a'' \<in> cache_keys c2 \<and>
               hd (remove1 ''a'' (map fst two_entries)) \<noteq> ''a'' \<and>
               cache_keys c2 = insert ''c'' (fst ` set two_entries - {hd (remove1 ''a'' (map fst two_entries))}) \<and>
               usage_order c2 = tl (remove1 ''a'' (map fst two_entries)) @ [''a'', ''c''])"
    apply (rule exI [of _ c])
    apply (rule exI [of _ c'])
    apply (rule conjI [OF run])
    apply (rule conjI [OF keys])
    apply (rule conjI [OF order])
    apply (rule conjI [OF put])
    apply (rule conjI [OF keys'])
    apply (rule conjI [OF order'])
    apply (rule promoted)
    done
  then show ?thesis
    by (intro conjI h1 h2 h3 h4 h5 h6)
qed

text \<open>
  The same run evaluated: after \<open>put a\<close>, \<open>put b\<close>, \<open>get a\<close> the order is \<open>[b, a]\<close>,
  and \<open>put c\<close> evicts \<open>b\<close>; without the \<open>get\<close> it evicts \<open>a\<close>.
\<close>

lemma lru_promotion_example:
  "run_ops [Put ''a'' (1::nat), Put ''b'' 2, Get ''a''] (LRUCache_init 2)
     = Inr \<lparr>capacity = 2, cache = [(''a'', 1), (''b'', 2)], usage_order = [''b'', ''a'']\<rparr> \<and>
   run_ops [Put ''a'' (1::nat), Put ''b'' 2, Get ''a'', Put ''c'' 3] (LRUCache_init 2)
     = Inr \<lparr>capacity = 2, cache = [(''a'', 1), (''c'', 3)], usage_order = [''a'', ''c'']\<rparr> \<and>
   run_ops [Put ''a'' (1::nat), Put ''b'' 2, Put ''c'' 3] (LRUCache_init 2)
     = Inr \<lparr>capacity = 2, cache = [(''b'', 2), (''c'', 3)], usage_order = [''b'', ''c'']\<rparr>"
  by (simp add: LRUCache_init_def LRUCache_put_def LRUCache_get_def list_remove_def
      list_pop0_def dict_del_def)

text \<open>
  With capacity 1 the promoted key is the only key, so it is still the next victim:
  after \<open>put a\<close>, \<open>get a\<close>, \<open>put b\<close> the key \<open>a\<close> is gone.
\<close>

theorem lru_promotion_counterexample:
  "run_ops [Put ''a'' (1::nat), Get ''a'', Put ''b'' 2] (LRUCache_init 1)
     = Inr \<lparr>capacity = 1, cache = [(''b'', 2)], usage_order = [''b'']\<rparr> \<and>
   ''a'' \<notin> cache_keys \<lparr>capacity = 1, cache = [(''b'', 2::nat)], usage_order = [''b'']\<rparr>"
  by (simp add: LRUCache_init_def LRUCache_put_def LRUCache_get_def list_remove_def
      list_pop0_def dict_del_def cache_keys_def)

text \<open>With capacity 0 the first put pops from the empty \<open>usage_order\<close>.\<close>

lemma lru_put_capacity_zero:
  "LRUCache_put (LRUCache_init 0) ''a'' (1::nat) = Inl IndexError"
  by (simp add: LRUCache_init_def LRUCache_put_def list_pop0_def)

section \<open>Properties of the cache key\<close>












lemma cache_key_example: "cache_key ''sample document'' 10 = ''sample document:10''"
  by (simp add: cache_key_def str_int_def digit_char_def str_nat.simps)

lemma LRUCache_put_stores:
  assumes "cache_inv c" and "0 < capacity c" and "LRUCache_put c k v = Inr c'"
  shows "map_of (cache c') k = Some v \<and> cache_inv c' \<and> capacity c' = capacity c"
proof (cases "map_of (cache c) k")
  case (Some w)
  from LRUCache_put_hit [OF assms(1) Some, of v] assms(3) show ?thesis
    by (auto simp: AList.update_conv')
next
  case None
  show ?thesis
  proof (cases "int (length (cache c)) < capacity c")
    case True
    from LRUCache_put_room [OF assms(1) None True, of v] assms(3) show ?thesis
      by (auto simp: AList.update_conv')
  next
    case False
    then have "capacity c \<le> int (length (cache c))" by simp
    from LRUCache_put_full(2,3) [OF assms(1) None this assms(2), of v] assms(3) show ?thesis
      by (auto simp: AList.update_conv')
  qed
qed

text \<open>
  The cache-hit behaviour lives in \<open>cached_query\<close>: with caching on, a call that
  succeeded is followed by a hit with the same result when repeated at once.
\<close>

lemma cached_query_second_call_hit:
  assumes "cache_inv c" and "0 < capacity c"
    and "cached_query collection_query c q n True = Inr (c1, r1, hit1)"
  shows "\<exists>c2. cached_query collection_query c1 q n True = Inr (c2, r1, True)"
proof -
  from LRUCache_get_inv [OF assms(1), of "cache_key q n"] obtain c0
    where get: "LRUCache_get c (cache_key q n) = Inr (c0, map_of (cache c) (cache_key q n))"
      and c0: "cache_inv c0" "capacity c0 = capacity c" "cache c0 = cache c"
    by blast
  have stored: "map_of (cache c1) (cache_key q n) = Some r1 \<and> cache_inv c1"
  proof (cases "map_of (cache c) (cache_key q n)")
    case (Some r)
    with assms(3) get c0 show ?thesis by (auto simp: cached_query_def)
  next
    case None
    with assms(3) get obtain put: "LRUCache_put c0 (cache_key q n) r1 = Inr c1"
      by (auto simp: cached_query_def split: sum.splits)
    from LRUCache_put_stores [OF c0(1) _ put] assms(2) c0(2) show ?thesis by simp
  qed
  from LRUCache_get_inv [of c1 "cache_key q n"] stored obtain c2
    where "LRUCache_get c1 (cache_key q n) = Inr (c2, Some r1)" by auto
  then show ?thesis by (simp add: cached_query_def)
qed

section \<open>Properties of the fusion retriever\<close>



lemma py_sorted_desc_set: "set (py_sorted_desc key xs) = set xs"
  by (simp add: py_sorted_desc_def)

lemma py_sorted_desc_length: "length (py_sorted_desc key xs) = length xs"
  by (simp add: py_sorted_desc_def)


















section \<open>Properties of the reranking retriever\<close>

lemma py_take_subset: "set (py_take k xs) \<subseteq> set xs"
  by (auto simp: py_take_def dest: in_set_takeD)

lemma py_take_length_le: "length (py_take k xs) \<le> length xs"
  by (simp add: py_take_def)

lemma py_take_length_bound: "0 \<le> k \<Longrightarrow> int (length (py_take k xs)) \<le> k"
  by (simp add: py_take_def)

lemma py_take_empty: "k = 0 \<or> xs = [] \<Longrightarrow> py_take k xs = []"
  by (auto simp: py_take_def)

lemma reranked_nodes_subset:
  "node ` set (map (\<lambda>(n, s). \<lparr>node = node n, score = s\<rparr>) (zip base_nodes rerank_scores))
     \<subseteq> node ` set base_nodes"
  by (auto dest: set_zip_leftD)

lemma reranked_nodes_length:
  "length (map (\<lambda>(n, s). \<lparr>node = node n, score = s\<rparr>) (zip base_nodes rerank_scores))
     \<le> length base_nodes"
  by simp

text \<open>
  C3 (amended). If \<open>fetch_k = 0\<close> or the candidate list is empty, then
  \<open>RerankedRetriever._retrieve\<close> returns the empty list, and the only calls made are
  those of the base retriever: the pairwise relevance model is not invoked.
\<close>

theorem rerank_empty_without_model:
  assumes "base_retriever q = (ev, Inr candidates)"
    and "fetchk = 0 \<or> candidates = []"
  shows "RerankedRetriever_retrieve base_retriever reranker fetchk topk q = (ev, Inr [])"
  using assms(1) py_take_empty [OF assms(2)]
  by (simp add: RerankedRetriever_retrieve_def)

theorem rerank_empty_without_model_witness:
  "ranked_candidates_retriever ''q'' = ([RetrieverCalled ''fused'' ''q''], Inr ranked_candidates) \<and>
   ((0::int) = 0 \<or> ranked_candidates = []) \<and>
   RerankedRetriever_retrieve ranked_candidates_retriever text_length_model 0 5 ''q''
     = ([RetrieverCalled ''fused'' ''q''], Inr [])"
proof -
  have h1: "ranked_candidates_retriever ''q''
              = ([RetrieverCalled ''fused'' ''q''], Inr ranked_candidates)"
    by (simp add: external_retriever_def)
  have h2: "(0::int) = 0 \<or> ranked_candidates = []"
    by simp
  note c = rerank_empty_without_model
    [where base_retriever = ranked_candidates_retriever and q = "''q''", OF h1 h2]
  show ?thesis by (rule conjI [OF h1], rule conjI [OF h2], rule c)
qed

text \<open>
  With \<open>fetch_k = -1\<close> the slice \<open>[:fetch_k]\<close> drops the last candidate only: of three
  candidates two are sent to the model and returned.
\<close>

theorem rerank_negative_fetch_counterexample:
  "(- 1::int) \<le> 0 \<and>
   RerankedRetriever_retrieve ranked_candidates_retriever text_length_model (- 1) 5 ''q''
     = ([RetrieverCalled ''fused'' ''q'', RerankerCalled [(''q'', ''aa''), (''q'', ''bbbb'')]],
        Inr [\<lparr>node = \<lparr>node_id = ''d2'', get_content = ''bbbb''\<rparr>, score = 4\<rparr>,
             \<lparr>node = \<lparr>node_id = ''d1'', get_content = ''aa''\<rparr>, score = 2\<rparr>])"
  by (simp add: RerankedRetriever_retrieve_def external_retriever_def py_take_def py_sorted_desc_def Let_def)

lemma rerank_success_cases:
  assumes "base_retriever q = (ev, Inr candidates)"
    and "RerankedRetriever_retrieve base_retriever reranker fetchk topk q = (ev', Inr out)"
  shows "out = [] \<or>
         (\<exists>rerank_scores. out =
            (if topk \<noteq> 0
             then py_take topk (py_sorted_desc score
                    (map (\<lambda>(n, s). \<lparr>node = node n, score = s\<rparr>)
                       (zip (py_take fetchk candidates) rerank_scores)))
             else py_sorted_desc score
                    (map (\<lambda>(n, s). \<lparr>node = node n, score = s\<rparr>)
                       (zip (py_take fetchk candidates) rerank_scores))))"
proof (cases "py_take fetchk candidates = []")
  case True
  with assms show ?thesis by (simp add: RerankedRetriever_retrieve_def)
next
  case False
  show ?thesis
  proof (cases "reranker (map (\<lambda>t. (q, t))
                  (map (\<lambda>n. get_content (node n)) (py_take fetchk candidates)))")
    case (Inl e)
    with assms False show ?thesis by (simp add: RerankedRetriever_retrieve_def Let_def)
  next
    case (Inr rerank_scores)
    with assms False show ?thesis
      by (auto simp: RerankedRetriever_retrieve_def Let_def split: if_splits)
  qed
qed

text \<open>
  C4 (amended). Every document in the output of \<open>RerankedRetriever._retrieve\<close> appears
  in the input candidate list. For \<open>fetch_k \<ge> 0\<close> the output has at most
  \<open>min(fetch_k, top_k)\<close> results when \<open>top_k > 0\<close>, and at most \<open>fetch_k\<close> results
  when \<open>top_k = 0\<close>, which switches the truncation to \<open>top_k\<close> off.
\<close>

theorem rerank_bounded_subset:
  assumes "base_retriever q = (ev, Inr candidates)"
    and "RerankedRetriever_retrieve base_retriever reranker fetchk topk q = (ev', Inr out)"
  shows "node ` set out \<subseteq> node ` set candidates \<and>
         (0 \<le> fetchk \<and> 0 \<le> topk \<longrightarrow>
            int (length out) \<le> (if topk = 0 then fetchk else min fetchk topk))"
proof -
  from rerank_success_cases [OF assms] show ?thesis
  proof
    assume "out = []"
    then show ?thesis by simp
  next
    assume "\<exists>rerank_scores. out =
            (if topk \<noteq> 0
             then py_take topk (py_sorted_desc score
                    (map (\<lambda>(n, s). \<lparr>node = node n, score = s\<rparr>)
                       (zip (py_take fetchk candidates) rerank_scores)))
             else py_sorted_desc score
                    (map (\<lambda>(n, s). \<lparr>node = node n, score = s\<rparr>)
                       (zip (py_take fetchk candidates) rerank_scores)))"
    then obtain rerank_scores where out: "out =
            (if topk \<noteq> 0
             then py_take topk (py_sorted_desc score
                    (map (\<lambda>(n, s). \<lparr>node = node n, score = s\<rparr>)
                       (zip (py_take fetchk candidates) rerank_scores)))
             else py_sorted_desc score
                    (map (\<lambda>(n, s). \<lparr>node = node n, score = s\<rparr>)
                       (zip (py_take fetchk candidates) rerank_scores)))" ..
    define base_nodes where "base_nodes = py_take fetchk candidates"
    define reranked where "reranked =
       map (\<lambda>(n, s). \<lparr>node = node n, score = s\<rparr>) (zip base_nodes rerank_scores)"
    define sorted_nodes where "sorted_nodes = py_sorted_desc score reranked"
    have out': "out = (if topk \<noteq> 0 then py_take topk sorted_nodes else sorted_nodes)"
      using out by (simp add: sorted_nodes_def reranked_def base_nodes_def)
    have "set out \<subseteq> set sorted_nodes"
      using py_take_subset [of topk sorted_nodes] by (simp add: out')
    also have "\<dots> = set reranked"
      by (simp add: sorted_nodes_def py_sorted_desc_set)
    finally have "node ` set out \<subseteq> node ` set reranked" by (rule image_mono)
    also have "\<dots> \<subseteq> node ` set base_nodes"
      unfolding reranked_def by (rule reranked_nodes_subset)
    also have "\<dots> \<subseteq> node ` set candidates"
      unfolding base_nodes_def by (rule image_mono) (rule py_take_subset)
    finally have subset: "node ` set out \<subseteq> node ` set candidates" .
    have len_sorted: "length sorted_nodes \<le> length base_nodes"
      using reranked_nodes_length [of base_nodes rerank_scores]
      by (simp add: sorted_nodes_def py_sorted_desc_length reranked_def)
    have len_out: "length out \<le> length sorted_nodes"
      using py_take_length_le [of topk sorted_nodes] by (simp add: out')
    have fetchk: "int (length out) \<le> fetchk" if "0 \<le> fetchk"
      using py_take_length_bound [OF that, of candidates] len_sorted len_out
      by (simp add: base_nodes_def)
    have topk: "int (length out) \<le> topk" if "0 < topk"
      using py_take_length_bound [of topk sorted_nodes] that by (simp add: out')
    from subset fetchk topk show ?thesis by simp
  qed
qed

theorem rerank_bounded_subset_witness:
  "ranked_candidates_retriever ''q'' = ([RetrieverCalled ''fused'' ''q''], Inr ranked_candidates) \<and>
   RerankedRetriever_retrieve ranked_candidates_retriever text_length_model 2 1 ''q''
     = ([RetrieverCalled ''fused'' ''q'', RerankerCalled [(''q'', ''aa''), (''q'', ''bbbb'')]],
        Inr [\<lparr>node = \<lparr>node_id = ''d2'', get_content = ''bbbb''\<rparr>, score = 4\<rparr>]) \<and>
   ((0::int) \<le> 2 \<and> (0::int) \<le> 1) \<and>
   node ` set [\<lparr>node = \<lparr>node_id = ''d2'', get_content = ''bbbb''\<rparr>, score = 4\<rparr>]
     \<subseteq> node ` set ranked_candidates \<and>
   int (length [\<lparr>node = \<lparr>node_id = ''d2'', get_content = ''bbbb''\<rparr>, score = 4\<rparr>])
     \<le> (if (1::int) = 0 then 2 else min 2 1)"
proof -
  have h1: "ranked_candidates_retriever ''q''
              = ([RetrieverCalled ''fused'' ''q''], Inr ranked_candidates)"
    by (simp add: external_retriever_def)
  have h2: "RerankedRetriever_retrieve ranked_candidates_retriever text_length_model 2 1 ''q''
     = ([RetrieverCalled ''fused'' ''q'', RerankerCalled [(''q'', ''aa''), (''q'', ''bbbb'')]],
        Inr [\<lparr>node = \<lparr>node_id = ''d2'', get_content = ''bbbb''\<rparr>, score = 4\<rparr>])"
    by (simp add: RerankedRetriever_retrieve_def external_retriever_def py_take_def py_sorted_desc_def Let_def)
  have h3: "(0::int) \<le> 2 \<and> (0::int) \<le> 1" by simp
  note c = rerank_bounded_subset
    [where base_retriever = ranked_candidates_retriever and q = "''q''", OF h1 h2]
  show ?thesis
    by (rule conjI [OF h1], rule conjI [OF h2], rule conjI [OF h3],
        rule conjI [OF c [THEN conjunct1]], rule mp [OF c [THEN conjunct2] h3])
qed

text \<open>
  With \<open>top_k = 0\<close> and \<open>fetch_k = 2\<close> both reranked candidates are returned,
  more than \<open>min(fetch_k, top_k) = 0\<close>.
\<close>

theorem rerank_top_k_zero_counterexample:
  "RerankedRetriever_retrieve ranked_candidates_retriever text_length_model 2 0 ''q''
     = ([RetrieverCalled ''fused'' ''q'', RerankerCalled [(''q'', ''aa''), (''q'', ''bbbb'')]],
        Inr [\<lparr>node = \<lparr>node_id = ''d2'', get_content = ''bbbb''\<rparr>, score = 4\<rparr>,
             \<lparr>node = \<lparr>node_id = ''d1'', get_content = ''aa''\<rparr>, score = 2\<rparr>]) \<and>
   \<not> int (length [\<lparr>node = \<lparr>node_id = ''d2'', get_content = ''bbbb''\<rparr>, score = 4\<rparr>,
                    \<lparr>node = \<lparr>node_id = ''d1'', get_content = ''aa''\<rparr>, score = 2\<rparr>])
       \<le> min 2 0"
  by (simp add: RerankedRetriever_retrieve_def external_retriever_def py_take_def py_sorted_desc_def Let_def)

text \<open>
  C8 (amended). If the pairwise relevance model raises on the batch of the first
  \<open>fetch_k\<close> candidates, then \<open>RerankedRetriever._retrieve\<close> raises the same exception
  after the call, and so does \<open>RetrievalPipeline.retrieve\<close> on a pipeline that holds this
  retriever, called directly or through \<open>BaseRetriever.retrieve\<close>: no ranking is
  returned.
\<close>

theorem rerank_failure_propagates:
  assumes "base_retriever q = (ev, Inr candidates)"
    and "py_take fetchk candidates \<noteq> []"
    and "reranker (map (\<lambda>t. (q, t))
           (map (\<lambda>n. get_content (node n)) (py_take fetchk candidates))) = Inl e"
  shows "RerankedRetriever_retrieve base_retriever reranker fetchk topk q
           = (ev @ [RerankerCalled (map (\<lambda>t. (q, t))
                (map (\<lambda>n. get_content (node n)) (py_take fetchk candidates)))], Inl e) \<and>
         RetrievalPipeline_retrieve
           \<lparr>config = cfg,
            pipeline = Some (RerankedRetriever_retrieve base_retriever reranker fetchk topk)\<rparr> q
           = (ev @ [RerankerCalled (map (\<lambda>t. (q, t))
                (map (\<lambda>n. get_content (node n)) (py_take fetchk candidates)))], Inl e) \<and>
         RetrievalPipeline_retrieve
           \<lparr>config = cfg,
            pipeline = Some (BaseRetriever_retrieve post
              (RerankedRetriever_retrieve base_retriever reranker fetchk topk))\<rparr> q
           = (ev @ [RerankerCalled (map (\<lambda>t. (q, t))
                (map (\<lambda>n. get_content (node n)) (py_take fetchk candidates)))], Inl e)"
  using assms
  by (simp add: RerankedRetriever_retrieve_def RetrievalPipeline_retrieve_def
      BaseRetriever_retrieve_def Let_def)

theorem rerank_failure_propagates_witness:
  "ranked_candidates_retriever ''q'' = ([RetrieverCalled ''fused'' ''q''], Inr ranked_candidates) \<and>
   py_take 10 ranked_candidates \<noteq> [] \<and>
   unavailable_model
       (map (\<lambda>t. (''q'', t)) (map (\<lambda>n. get_content (node n)) (py_take 10 ranked_candidates)))
     = Inl (CollaboratorError ''RerankerUnavailableError'') \<and>
   (RerankedRetriever_retrieve ranked_candidates_retriever unavailable_model 10 5 ''q''
      = ([RetrieverCalled ''fused'' ''q''] @ [RerankerCalled
           (map (\<lambda>t. (''q'', t)) (map (\<lambda>n. get_content (node n)) (py_take 10 ranked_candidates)))],
         Inl (CollaboratorError ''RerankerUnavailableError'')) \<and>
    RetrievalPipeline_retrieve
        \<lparr>config = default_config,
         pipeline = Some (RerankedRetriever_retrieve ranked_candidates_retriever
                            unavailable_model 10 5)\<rparr> ''q''
      = ([RetrieverCalled ''fused'' ''q''] @ [RerankerCalled
           (map (\<lambda>t. (''q'', t)) (map (\<lambda>n. get_content (node n)) (py_take 10 ranked_candidates)))],
         Inl (CollaboratorError ''RerankerUnavailableError'')) \<and>
    RetrievalPipeline_retrieve
        \<lparr>config = default_config,
         pipeline = Some (BaseRetriever_retrieve (\<lambda>nodes. nodes)
                            (RerankedRetriever_retrieve ranked_candidates_retriever
                               unavailable_model 10 5))\<rparr> ''q''
      = ([RetrieverCalled ''fused'' ''q''] @ [RerankerCalled
           (map (\<lambda>t. (''q'', t)) (map (\<lambda>n. get_content (node n)) (py_take 10 ranked_candidates)))],
         Inl (CollaboratorError ''RerankerUnavailableError'')))"
proof -
  have h1: "ranked_candidates_retriever ''q''
              = ([RetrieverCalled ''fused'' ''q''], Inr ranked_candidates)"
    by (simp add: external_retriever_def)
  have h2: "py_take 10 ranked_candidates \<noteq> []"
    by (simp add: py_take_def)
  have h3: "unavailable_model
       (map (\<lambda>t. (''q'', t)) (map (\<lambda>n. get_content (node n)) (py_take 10 ranked_candidates)))
     = Inl (CollaboratorError ''RerankerUnavailableError'')"
    by simp
  note c = rerank_failure_propagates
    [where base_retriever = ranked_candidates_retriever and q = "''q''", OF h1 h2 h3]
  show ?thesis by (rule conjI [OF h1], rule conjI [OF h2], rule conjI [OF h3], rule c)
qed

text \<open>
  A model that raises \<open>RerankerUnavailableError\<close>: the call ends with this exception
  and not with the candidate ranking.
\<close>

theorem rerank_failure_counterexample:
  "RerankedRetriever_retrieve ranked_candidates_retriever unavailable_model 10 5 ''q''
     = ([RetrieverCalled ''fused'' ''q'',
         RerankerCalled [(''q'', ''aa''), (''q'', ''bbbb''), (''q'', ''c'')]],
        Inl (CollaboratorError ''RerankerUnavailableError'')) \<and>
   snd (RerankedRetriever_retrieve ranked_candidates_retriever unavailable_model 10 5 ''q'')
     \<noteq> Inr ranked_candidates"
  by (simp add: RerankedRetriever_retrieve_def external_retriever_def py_take_def py_sorted_desc_def Let_def)

section \<open>Properties of the pipeline\<close>

lemma build_retrievers_bm25_only:
  assumes "use_bm25 cfg" and "\<not> use_vector cfg"
  shows "build_retrievers ext cfg nodes =
           (case BM25Retriever_from_defaults ext nodes (top_k cfg) of
              Inl e \<Rightarrow> Inl e
            | Inr search \<Rightarrow> Inr [(''bm25'', external_retriever ''bm25'' search)])"
  using assms by (simp add: build_retrievers_def split: sum.split)

lemma build_bm25_only:
  assumes "use_bm25 cfg" and "\<not> use_vector cfg" and "\<not> use_reranking cfg"
  shows "build ext (RetrievalPipeline_init cfg) nodes =
           (case BM25Retriever_from_defaults ext nodes (top_k cfg) of
              Inl e \<Rightarrow> Inl e
            | Inr search \<Rightarrow>
                Inr \<lparr>config = cfg, pipeline = Some (external_retriever ''bm25'' search)\<rparr>)"
  using assms
  by (simp add: build_def build_retrievers_bm25_only select_base_retriever_def
      RetrievalPipeline_init_def split: sum.split)

text \<open>
  With the BM25 stage on, \<open>build\<close> on the empty corpus raises for every choice of the
  collaborators, and no pipeline is assigned.
\<close>

lemma build_empty_corpus:
  "use_bm25 (config self) \<Longrightarrow>
     build ext self [] = Inl (CollaboratorError ''EmptyCorpusError'')"
  by (simp add: build_def build_retrievers_def BM25Retriever_from_defaults_def)

text \<open>
  C7. With \<open>use_bm25\<close> on, \<open>use_vector\<close> off and \<open>use_reranking\<close> off, \<open>build\<close>
  constructs the BM25 retriever with \<open>similarity_top_k = top_k\<close> and nothing else. When
  this constructor raises, as it does on the empty corpus, \<open>build\<close> raises the same
  exception. On a corpus that the index accepts, the built pipeline is the BM25 retriever
  itself, no fusion retriever is constructed, and \<open>retrieve\<close> makes the single call to
  the BM25 retriever and returns exactly its result: the BM25 ranking of the corpus cut to
  its first \<open>top_k\<close> entries, with the same documents, order and scores, or the
  exception of the ranking.
\<close>

theorem bm25_only_bypasses_fusion:
  assumes "use_bm25 cfg" and "\<not> use_vector cfg" and "\<not> use_reranking cfg"
  shows "(\<forall>e. BM25Retriever_from_defaults ext nodes (top_k cfg) = Inl e \<longrightarrow>
            build ext (RetrievalPipeline_init cfg) nodes = Inl e) \<and>
         (\<forall>ranking. nodes \<noteq> [] \<and> bm25_index ext nodes = Inr ranking \<longrightarrow>
            build ext (RetrievalPipeline_init cfg) nodes
              = Inr \<lparr>config = cfg,
                pipeline = Some (external_retriever ''bm25''
                  (BM25Retriever_retrieve ranking (top_k cfg)))\<rparr> \<and>
            RetrievalPipeline_retrieve
               \<lparr>config = cfg,
                pipeline = Some (external_retriever ''bm25''
                  (BM25Retriever_retrieve ranking (top_k cfg)))\<rparr> q
              = ([RetrieverCalled ''bm25'' q],
                 (case ranking q of
                    Inl e \<Rightarrow> Inl e
                  | Inr ranked \<Rightarrow> Inr (take (nat (top_k cfg)) ranked))))"
proof (intro conjI allI impI)
  fix e
  assume "BM25Retriever_from_defaults ext nodes (top_k cfg) = Inl e"
  then show "build ext (RetrievalPipeline_init cfg) nodes = Inl e"
    by (simp add: build_bm25_only [OF assms])
next
  fix ranking
  assume "nodes \<noteq> [] \<and> bm25_index ext nodes = Inr ranking"
  then have "BM25Retriever_from_defaults ext nodes (top_k cfg)
               = Inr (BM25Retriever_retrieve ranking (top_k cfg))"
    by (simp add: BM25Retriever_from_defaults_def)
  then show "build ext (RetrievalPipeline_init cfg) nodes
              = Inr \<lparr>config = cfg,
                pipeline = Some (external_retriever ''bm25''
                  (BM25Retriever_retrieve ranking (top_k cfg)))\<rparr>"
    by (simp add: build_bm25_only [OF assms])
next
  fix ranking
  show "RetrievalPipeline_retrieve
               \<lparr>config = cfg,
                pipeline = Some (external_retriever ''bm25''
                  (BM25Retriever_retrieve ranking (top_k cfg)))\<rparr> q
              = ([RetrieverCalled ''bm25'' q],
                 (case ranking q of
                    Inl e \<Rightarrow> Inl e
                  | Inr ranked \<Rightarrow> Inr (take (nat (top_k cfg)) ranked)))"
    by (simp add: RetrievalPipeline_retrieve_def external_retriever_def
        BM25Retriever_retrieve_def)
qed

text \<open>
  The witness builds on the empty corpus, where the constructor raises, and on three
  nodes with \<open>top_k = 2\<close>, where the first two entries of the ranking are returned. The
  stub embedding model and cross-encoder cannot be loaded: they are not constructed.
\<close>

theorem bm25_only_bypasses_fusion_witness:
  "use_bm25 bm25_only_config \<and> \<not> use_vector bm25_only_config \<and>
   \<not> use_reranking bm25_only_config \<and>
   BM25Retriever_from_defaults stub_collaborators [] (top_k bm25_only_config)
     = Inl (CollaboratorError ''EmptyCorpusError'') \<and>
   build stub_collaborators (RetrievalPipeline_init bm25_only_config) []
     = Inl (CollaboratorError ''EmptyCorpusError'') \<and>
   (three_nodes \<noteq> [] \<and> bm25_index stub_collaborators three_nodes = Inr three_nodes_ranking) \<and>
   build stub_collaborators (RetrievalPipeline_init bm25_only_config) three_nodes
     = Inr bm25_only_pipeline \<and>
   RetrievalPipeline_retrieve bm25_only_pipeline ''cat''
     = ([RetrieverCalled ''bm25'' ''cat''],
        Inr [\<lparr>node = \<lparr>node_id = ''doc_0'', get_content = ''cat sat on mat''\<rparr>, score = 1\<rparr>,
             \<lparr>node = \<lparr>node_id = ''doc_1'', get_content = ''dog ran in park''\<rparr>, score = 1\<rparr>])"
proof -
  have h1: "use_bm25 bm25_only_config" by simp
  have h2: "\<not> use_vector bm25_only_config" by simp
  have h3: "\<not> use_reranking bm25_only_config" by simp
  have h4: "BM25Retriever_from_defaults stub_collaborators [] (top_k bm25_only_config)
              = Inl (CollaboratorError ''EmptyCorpusError'')"
    by (simp add: BM25Retriever_from_defaults_def)
  have h5: "three_nodes \<noteq> [] \<and> bm25_index stub_collaborators three_nodes = Inr three_nodes_ranking"
    by simp
  note empty = bm25_only_bypasses_fusion
    [OF h1 h2 h3, where ext = stub_collaborators and nodes = "[]",
     THEN conjunct1, THEN spec, THEN mp, OF h4]
  note built = bm25_only_bypasses_fusion
    [OF h1 h2 h3, where ext = stub_collaborators and nodes = three_nodes and q = "''cat''",
     THEN conjunct2, THEN spec, THEN mp, OF h5]
  from built have c1: "build stub_collaborators (RetrievalPipeline_init bm25_only_config)
                         three_nodes = Inr bm25_only_pipeline"
    by (rule conjunct1)
  from built have c2: "RetrievalPipeline_retrieve bm25_only_pipeline ''cat''
     = ([RetrieverCalled ''bm25'' ''cat''],
        Inr [\<lparr>node = \<lparr>node_id = ''doc_0'', get_content = ''cat sat on mat''\<rparr>, score = 1\<rparr>,
             \<lparr>node = \<lparr>node_id = ''doc_1'', get_content = ''dog ran in park''\<rparr>, score = 1\<rparr>])"
    by simp
  show ?thesis
    by (rule conjI [OF h1], rule conjI [OF h2], rule conjI [OF h3], rule conjI [OF h4],
        rule conjI [OF empty], rule conjI [OF h5], rule conjI [OF c1], rule c2)
qed

text \<open>
  C10. With \<open>use_bm25\<close> and \<open>use_vector\<close> both off, \<open>build\<close> raises (the dictionary
  of retrievers is empty, so \<open>next(iter(...))\<close> raises \<open>StopIteration\<close>) and returns no
  pipeline; \<open>retrieve\<close> on a pipeline object whose \<open>build\<close> was never called raises
  \<open>ValueError\<close>.
\<close>

theorem build_without_retriever_fails:
  "(\<not> use_bm25 (config self) \<and> \<not> use_vector (config self)
      \<longrightarrow> build ext self nodes = Inl StopIteration) \<and>
   RetrievalPipeline_retrieve (RetrievalPipeline_init cfg) q = ([], Inl ValueError)"
  by (simp add: build_def build_retrievers_def select_base_retriever_def
      RetrievalPipeline_init_def RetrievalPipeline_retrieve_def)

theorem build_without_retriever_fails_witness:
  "(\<not> use_bm25 (config (RetrievalPipeline_init no_retriever_config)) \<and>
    \<not> use_vector (config (RetrievalPipeline_init no_retriever_config))) \<and>
   build stub_collaborators (RetrievalPipeline_init no_retriever_config) three_nodes
     = Inl StopIteration \<and>
   RetrievalPipeline_retrieve (RetrievalPipeline_init default_config) ''cat''
     = ([], Inl ValueError)"
proof -
  have h: "\<not> use_bm25 (config (RetrievalPipeline_init no_retriever_config)) \<and>
           \<not> use_vector (config (RetrievalPipeline_init no_retriever_config))"
    by (simp add: RetrievalPipeline_init_def)
  note c = build_without_retriever_fails
    [where self = "RetrievalPipeline_init no_retriever_config"]
  from c have c1: "build ext (RetrievalPipeline_init no_retriever_config) nodes
                     = Inl StopIteration" for ext nodes
    using h by blast
  from c have c2: "RetrievalPipeline_retrieve (RetrievalPipeline_init cfg) q
                     = ([], Inl ValueError)" for cfg q
    by blast
  show ?thesis by (rule conjI [OF h], rule conjI [OF c1], rule c2)
qed

lemma external_calls_first: "calls_retriever_first (external_retriever name f)"
  by (simp add: calls_retriever_first_def external_retriever_def)

lemma fusion_calls_first:
  assumes "calls_retriever_first r"
  shows "calls_retriever_first (WeightedFusionRetriever_retrieve ((name, r) # rs) ws)"
  unfolding calls_retriever_first_def
proof
  fix q
  from assms obtain n rest where fst_r: "fst (r q) = RetrieverCalled n q # rest"
    unfolding calls_retriever_first_def by blast
  obtain ev res where rq: "r q = (ev, res)" by (cases "r q")
  with fst_r have ev: "ev = RetrieverCalled n q # rest" by simp
  show "\<exists>name' rest'. fst (WeightedFusionRetriever_retrieve ((name, r) # rs) ws q)
          = RetrieverCalled name' q # rest'"
  proof (cases res)
    case (Inl e)
    with rq ev show ?thesis by (simp add: WeightedFusionRetriever_retrieve_def)
  next
    case (Inr results)
    obtain ev2 res2 where
      "fusion_loop rs ws q (fold (add_result name (weights_get ws name)) results []) = (ev2, res2)"
      by (cases "fusion_loop rs ws q (fold (add_result name (weights_get ws name)) results [])")
    with rq ev Inr show ?thesis
      by (cases res2) (simp_all add: WeightedFusionRetriever_retrieve_def)
  qed
qed

lemma reranked_calls_first:
  assumes "calls_retriever_first r"
  shows "calls_retriever_first (RerankedRetriever_retrieve r reranker fetchk topk)"
  unfolding calls_retriever_first_def
proof
  fix q
  from assms obtain n rest where fst_r: "fst (r q) = RetrieverCalled n q # rest"
    unfolding calls_retriever_first_def by blast
  obtain ev res where rq: "r q = (ev, res)" by (cases "r q")
  with fst_r have ev: "ev = RetrieverCalled n q # rest" by simp
  show "\<exists>name' rest'. fst (RerankedRetriever_retrieve r reranker fetchk topk q)
          = RetrieverCalled name' q # rest'"
  proof (cases res)
    case (Inl e)
    with rq ev show ?thesis by (simp add: RerankedRetriever_retrieve_def)
  next
    case (Inr results)
    with rq ev show ?thesis
      by (simp add: RerankedRetriever_retrieve_def Let_def split: sum.split)
  qed
qed

lemma wrapper_calls_first:
  assumes "calls_retriever_first r"
  shows "calls_retriever_first (BaseRetriever_retrieve post r)"
  unfolding calls_retriever_first_def
proof
  fix q
  from assms obtain n rest where fst_r: "fst (r q) = RetrieverCalled n q # rest"
    unfolding calls_retriever_first_def by blast
  obtain ev res where rq: "r q = (ev, res)" by (cases "r q")
  with fst_r have ev: "ev = RetrieverCalled n q # rest" by simp
  show "\<exists>name' rest'. fst (BaseRetriever_retrieve post r q) = RetrieverCalled name' q # rest'"
    using rq ev by (cases res) (simp_all add: BaseRetriever_retrieve_def)
qed

lemma build_retrievers_external:
  assumes "build_retrievers ext cfg nodes = Inr rs"
  shows "list_all (\<lambda>(name, r). calls_retriever_first r) rs"
  using assms
  by (auto simp: build_retrievers_def external_calls_first split: if_splits sum.splits)

lemma select_base_calls_first:
  assumes "select_base_retriever ext cfg rs = Inr base"
    and "list_all (\<lambda>(name, r). calls_retriever_first r) rs"
  shows "calls_retriever_first base"
proof (cases rs)
  case Nil
  with assms(1) show ?thesis by (simp add: select_base_retriever_def)
next
  case (Cons p rest)
  obtain name r where p: "p = (name, r)" by (cases p)
  from assms(2) Cons p have r: "calls_retriever_first r" by simp
  show ?thesis
  proof (cases "use_hybrid cfg \<and> 1 < length rs")
    case True
    with assms(1) Cons p have "base = BaseRetriever_retrieve (handle_recursive_retrieval ext)
        (WeightedFusionRetriever_retrieve ((name, r) # rest)
           [(''vector'', vector_weight cfg), (''bm25'', bm25_weight cfg)])"
      by (simp add: select_base_retriever_def)
    with fusion_calls_first [OF r] show ?thesis by (simp add: wrapper_calls_first)
  next
    case False
    with assms(1) Cons p have "base = r"
      by (auto simp: select_base_retriever_def)
    with r show ?thesis by simp
  qed
qed

lemma built_pipeline_calls_first:
  assumes "build ext self nodes = Inr p"
  shows "\<exists>r. pipeline p = Some r \<and> calls_retriever_first r"
proof -
  from assms obtain rs where rs: "build_retrievers ext (config self) nodes = Inr rs"
    by (cases "build_retrievers ext (config self) nodes") (simp_all add: build_def)
  with assms obtain base where base: "select_base_retriever ext (config self) rs = Inr base"
    by (cases "select_base_retriever ext (config self) rs") (simp_all add: build_def)
  from select_base_calls_first [OF base build_retrievers_external [OF rs]]
  have first: "calls_retriever_first base" .
  show ?thesis
  proof (cases "use_reranking (config self)")
    case True
    with assms rs base obtain reranker where "cross_encoder ext = Inr reranker"
      and "p = self\<lparr>pipeline := Some
             (BaseRetriever_retrieve (handle_recursive_retrieval ext)
                (RerankedRetriever_retrieve base reranker
                   (rerank_top_k (config self)) (top_k (config self))))\<rparr>"
      by (cases "cross_encoder ext") (auto simp: build_def)
    with first show ?thesis
      by (simp add: wrapper_calls_first reranked_calls_first)
  next
    case False
    with assms rs base have "p = self\<lparr>pipeline := Some base\<rparr>"
      by (auto simp: build_def)
    with first show ?thesis by simp
  qed
qed

text \<open>
  C2 (amended). \<open>RetrievalPipeline.retrieve\<close> has no cache. On a built pipeline every
  call, the first one and a repeated one alike, starts by calling a retriever with the
  query; two calls with the identical query make the same collaborator calls and yield
  the identical output.
\<close>

theorem retrieve_runs_retrievers_every_call:
  assumes "build ext self nodes = Inr p"
  shows "\<exists>name rest r.
           RetrievalPipeline_retrieve p q = (RetrieverCalled name q # rest, r) \<and>
           map (RetrievalPipeline_retrieve p) [q, q]
             = [(RetrieverCalled name q # rest, r), (RetrieverCalled name q # rest, r)]"
proof -
  from built_pipeline_calls_first [OF assms] obtain f
    where f: "pipeline p = Some f" "calls_retriever_first f" by blast
  then obtain name rest where "fst (f q) = RetrieverCalled name q # rest"
    unfolding calls_retriever_first_def by blast
  then have "f q = (RetrieverCalled name q # rest, snd (f q))"
    by (cases "f q") simp
  with f(1) have "RetrievalPipeline_retrieve p q = (RetrieverCalled name q # rest, snd (f q))"
    by (simp add: RetrievalPipeline_retrieve_def)
  then show ?thesis by simp
qed


theorem retrieve_runs_retrievers_every_call_witness:
  "build stub_collaborators (RetrievalPipeline_init bm25_only_config) three_nodes
     = Inr bm25_only_pipeline \<and>
   (\<exists>name rest r.
      RetrievalPipeline_retrieve bm25_only_pipeline ''cat''
        = (RetrieverCalled name ''cat'' # rest, r) \<and>
      map (RetrievalPipeline_retrieve bm25_only_pipeline) [''cat'', ''cat'']
        = [(RetrieverCalled name ''cat'' # rest, r), (RetrieverCalled name ''cat'' # rest, r)])"
proof -
  have h: "build stub_collaborators (RetrievalPipeline_init bm25_only_config) three_nodes
             = Inr bm25_only_pipeline"
    by (simp add: build_def build_retrievers_def select_base_retriever_def
        RetrievalPipeline_init_def BM25Retriever_from_defaults_def)
  note c = retrieve_runs_retrievers_every_call [OF h]
  show ?thesis by (rule conjI [OF h], rule c)
qed

text \<open>
  A BM25-only pipeline queried twice with the same text: the second call calls the BM25
  retriever again, it is not answered from a cache.
\<close>

theorem retrieve_no_cache_counterexample:
  "build stub_collaborators (RetrievalPipeline_init bm25_only_config) three_nodes
     = Inr bm25_only_pipeline \<and>
   map (RetrievalPipeline_retrieve bm25_only_pipeline) [''cat'', ''cat'']
     = [([RetrieverCalled ''bm25'' ''cat''],
         Inr [\<lparr>node = \<lparr>node_id = ''doc_0'', get_content = ''cat sat on mat''\<rparr>, score = 1\<rparr>,
              \<lparr>node = \<lparr>node_id = ''doc_1'', get_content = ''dog ran in park''\<rparr>, score = 1\<rparr>]),
        ([RetrieverCalled ''bm25'' ''cat''],
         Inr [\<lparr>node = \<lparr>node_id = ''doc_0'', get_content = ''cat sat on mat''\<rparr>, score = 1\<rparr>,
              \<lparr>node = \<lparr>node_id = ''doc_1'', get_content = ''dog ran in park''\<rparr>, score = 1\<rparr>])]"
  by (simp add: build_def build_retrievers_def select_base_retriever_def
      RetrievalPipeline_init_def RetrievalPipeline_retrieve_def external_retriever_def
      BM25Retriever_from_defaults_def BM25Retriever_retrieve_def)

end
